theory Spec2Isabelle
  imports Complex_Main "HOL-Library.Sublist"
begin

section \<open>Data model\<close>

text \<open>
  A parsed JSON document, as Python's \<^verbatim>\<open>json\<close> module returns it: \<^verbatim>\<open>None\<close>, \<^verbatim>\<open>bool\<close>,
  \<^verbatim>\<open>int\<close>, \<^verbatim>\<open>float\<close>, \<^verbatim>\<open>str\<close>, \<^verbatim>\<open>list\<close> and \<^verbatim>\<open>dict\<close>. A \<^verbatim>\<open>dict\<close> is the list of its
  items in insertion order (its keys are distinct).
\<close>

datatype json =
    JNull
  | JBool bool
  | JInt int
  | JFloat real
  | JStr string
  | JArr "json list"
  | JObj "(string \<times> json) list"

text \<open>
  A \<^verbatim>\<open>requests\<close> response as far as the engine reads it: \<^verbatim>\<open>status_code\<close>, \<^verbatim>\<open>headers\<close>
  (membership and lookup by header name) and \<^verbatim>\<open>json()\<close>, which is \<open>None\<close> where
  \<^verbatim>\<open>response.json()\<close> raises \<^verbatim>\<open>JSONDecodeError\<close>.
\<close>

record response =
  status_code :: int
  headers :: "string \<rightharpoonup> string"
  body :: "json option"

text \<open>What \<^verbatim>\<open>jsonschema.validate\<close> does: return, raise \<^verbatim>\<open>ValidationError\<close>, or raise
  another exception (\<^verbatim>\<open>SchemaError\<close>, \<^verbatim>\<open>RefResolutionError\<close>), which \<^verbatim>\<open>check_response\<close>
  does not catch.\<close>

datatype validation = Conforms | ValidationError | OtherValidateError

text \<open>The exceptions that leave the engine's methods uncaught.\<close>

datatype error =
    IndexError
  | KeyError string
  | ValueError
  | SchemaError
  | FormatUnmodelled

text \<open>
  Modelled from the spec: class \<^verbatim>\<open>Test\<close> of \<^verbatim>\<open>TestResult.py\<close> is not among the sources. An
  outcome is the name of the check, one of five terminal states and an optional message.
\<close>

datatype status = PASS | FAIL | NA | MANUAL | WARNING

record outcome =
  name :: string
  state :: status
  message :: "string option"

definition Test_PASS :: "string \<Rightarrow> outcome" where
  "Test_PASS description = \<lparr>name = description, state = PASS, message = None\<rparr>"

definition Test_FAIL :: "string \<Rightarrow> string \<Rightarrow> outcome" where
  "Test_FAIL description detail = \<lparr>name = description, state = FAIL, message = Some detail\<rparr>"

definition Test_NA :: "string \<Rightarrow> string \<Rightarrow> outcome" where
  "Test_NA description detail = \<lparr>name = description, state = NA, message = Some detail\<rparr>"

definition Test_MANUAL :: "string \<Rightarrow> string \<Rightarrow> outcome" where
  "Test_MANUAL description detail = \<lparr>name = description, state = MANUAL, message = Some detail\<rparr>"

text \<open>
  An endpoint descriptor \<^verbatim>\<open>resource[1]\<close> of the specification catalog: the HTTP method, the
  names of the path parameters in order (\<^verbatim>\<open>None\<close> and the empty list are both \<open>[]\<close>) and the
  response codes in iteration order. A resource is the pair of the path template
  \<^verbatim>\<open>resource[0]\<close> and the descriptor.
\<close>

record descriptor =
  http_method :: string
  params :: "string list"
  responses :: "int list"

type_synonym resource = "string \<times> descriptor"

text \<open>
  The \<^verbatim>\<open>Specification\<close> object of an API (not among the sources, taken as given):
  \<^verbatim>\<open>get_reads()\<close> and \<^verbatim>\<open>get_schema(method, path, status_code)\<close>. \<open>None\<close> stands for every
  result that \<^verbatim>\<open>if not schema\<close> takes as absent.
\<close>

record catalog =
  get_reads :: "resource list"
  get_schema :: "string \<Rightarrow> string \<Rightarrow> int \<Rightarrow> json option"

text \<open>One entry \<^verbatim>\<open>self.apis[api]\<close>.\<close>

record api_instance =
  base_url :: string
  url :: string
  spec :: catalog

text \<open>
  The fixed part of a \<^verbatim>\<open>GenericTest\<close> object and the world around it. \<open>apis\<close> is the dict
  \<^verbatim>\<open>self.apis\<close> in iteration order. \<open>send\<close> is the network: what \<^verbatim>\<open>requests\<close> answers to a
  method and a URL after the requests made so far, \<open>Inl\<close> the description of a
  \<^verbatim>\<open>RequestException\<close>. \<open>validate\<close> is \<^verbatim>\<open>jsonschema.validate\<close>, \<open>show_headers\<close> and \<open>py_str\<close> are
  Python's \<^verbatim>\<open>str\<close> on a header dict and on a JSON value that is not a string.
\<close>

record engine =
  apis :: "(string \<times> api_instance) list"
  test_version :: string
  omit_paths :: "string list"
  send :: "(string \<times> string) list \<Rightarrow> string \<Rightarrow> string \<Rightarrow> string + response"
  validate :: "json \<Rightarrow> json \<Rightarrow> validation"
  show_headers :: "(string \<rightharpoonup> string) \<Rightarrow> string"
  py_str :: "json \<Rightarrow> string"

text \<open>
  The mutable part: the dict \<^verbatim>\<open>self.saved_entities\<close> and, as a record of the effects, the
  requests handed to \<^verbatim>\<open>do_request\<close> so far, oldest first.
\<close>

record run_state =
  saved_entities :: "string \<rightharpoonup> json list"
  requests :: "(string \<times> string) list"

definition initial_state :: run_state where
  "initial_state = \<lparr>saved_entities = Map.empty, requests = []\<rparr>"

section \<open>Strings\<close>

text \<open>\<^verbatim>\<open>s.rstrip("/")\<close>, \<^verbatim>\<open>s.endswith("/")\<close>, \<^verbatim>\<open>s.split("{")[0]\<close>, \<^verbatim>\<open>s.upper()\<close> on ASCII text and
  \<^verbatim>\<open>str\<close> of an \<^verbatim>\<open>int\<close>.\<close>

definition rstrip_slash :: "string \<Rightarrow> string" where
  "rstrip_slash s = rev (dropWhile (\<lambda>c. c = CHR ''/'') (rev s))"

definition endswith_slash :: "string \<Rightarrow> bool" where
  "endswith_slash s = (s \<noteq> [] \<and> last s = CHR ''/'')"

definition before_brace :: "string \<Rightarrow> string" where
  "before_brace s = takeWhile (\<lambda>c. c \<noteq> CHR ''{'') s"

definition upper_char :: "char \<Rightarrow> char" where
  "upper_char c =
     (case map_of (zip ''abcdefghijklmnopqrstuvwxyz'' ''ABCDEFGHIJKLMNOPQRSTUVWXYZ'') c of
        Some u \<Rightarrow> u
      | None \<Rightarrow> c)"

definition upper :: "string \<Rightarrow> string" where
  "upper s = map upper_char s"

fun str_nat :: "nat \<Rightarrow> string" where
  "str_nat n =
     (if n < 10 then [''0123456789'' ! n]
      else str_nat (n div 10) @ [''0123456789'' ! (n mod 10)])"

definition str_int :: "int \<Rightarrow> string" where
  "str_int i = (if i < 0 then CHR ''-'' # str_nat (nat (- i)) else str_nat (nat i))"

section \<open>Cross-origin headers and the response validator\<close>

definition validate_CORS :: "string \<Rightarrow> response \<Rightarrow> bool" where
  "validate_CORS meth response =
     (if headers response ''Access-Control-Allow-Origin'' = None then False
      else if meth = ''OPTIONS'' then
        (if headers response ''Access-Control-Allow-Headers'' = None then False
         else case headers response ''Access-Control-Allow-Methods'' of
                None \<Rightarrow> False
              | Some allowed \<Rightarrow> if \<not> sublist meth allowed then False else True)
      else True)"

definition check_response :: "engine \<Rightarrow> json \<Rightarrow> string \<Rightarrow> response \<Rightarrow> error + bool \<times> string" where
  "check_response self schema meth response =
     (if \<not> validate_CORS meth response
      then Inr (False, ''Incorrect CORS headers: '' @ show_headers self (headers response))
      else case body response of
             None \<Rightarrow> Inr (False, ''Invalid JSON received'')
           | Some instance \<Rightarrow>
               (case validate self schema instance of
                  ValidationError \<Rightarrow> Inr (False, ''Response schema validation error'')
                | OtherValidateError \<Rightarrow> Inl SchemaError
                | Conforms \<Rightarrow> Inr (True, '''')))"

section \<open>Substituting the path parameter\<close>

text \<open>
  \<^verbatim>\<open>template.format(**{key: value})\<close> on the replacement fields the catalog's templates
  use: literal text, the escapes \<^verbatim>\<open>{{\<close> and \<^verbatim>\<open>}}\<close>, and \<^verbatim>\<open>{name}\<close>. A lone brace is a
  \<^verbatim>\<open>ValueError\<close>, an empty or numeric field asks for a positional argument that is not
  there (\<^verbatim>\<open>IndexError\<close>), another name is a \<^verbatim>\<open>KeyError\<close>. A field with a conversion, a
  format specification, an attribute or an index is outside this model
  (\<open>FormatUnmodelled\<close>).
\<close>

definition plain_field :: "string \<Rightarrow> bool" where
  "plain_field f = list_all (\<lambda>c. c \<notin> set ''{!:.['') f"

definition is_digit :: "char \<Rightarrow> bool" where
  "is_digit c = (c \<in> set ''0123456789'')"

function str_format :: "string \<Rightarrow> string \<Rightarrow> string \<Rightarrow> error + string" where
  "str_format [] key val = Inr []"
| "str_format (c # rest) key val =
     (if c = CHR ''{'' then
        (case rest of
           [] \<Rightarrow> Inl ValueError
         | d # rest' \<Rightarrow>
             if d = CHR ''{'' then
               (case str_format rest' key val of
                  Inl e \<Rightarrow> Inl e
                | Inr s \<Rightarrow> Inr (CHR ''{'' # s))
             else if dropWhile (\<lambda>x. x \<noteq> CHR ''}'') rest = [] then Inl ValueError
             else if \<not> plain_field (takeWhile (\<lambda>x. x \<noteq> CHR ''}'') rest) then Inl FormatUnmodelled
             else if list_all is_digit (takeWhile (\<lambda>x. x \<noteq> CHR ''}'') rest) then Inl IndexError
             else if takeWhile (\<lambda>x. x \<noteq> CHR ''}'') rest \<noteq> key
               then Inl (KeyError (takeWhile (\<lambda>x. x \<noteq> CHR ''}'') rest))
             else
               (case str_format (tl (dropWhile (\<lambda>x. x \<noteq> CHR ''}'') rest)) key val of
                  Inl e \<Rightarrow> Inl e
                | Inr s \<Rightarrow> Inr (val @ s)))
      else if c = CHR ''}'' then
        (case rest of
           [] \<Rightarrow> Inl ValueError
         | d # rest' \<Rightarrow>
             if d = CHR ''}'' then
               (case str_format rest' key val of
                  Inl e \<Rightarrow> Inl e
                | Inr s \<Rightarrow> Inr (CHR ''}'' # s))
             else Inl ValueError)
      else
        (case str_format rest key val of
           Inl e \<Rightarrow> Inl e
         | Inr s \<Rightarrow> Inr (c # s)))"
  by pat_completeness auto
termination
proof (relation "measure (\<lambda>(t, key, val). length t)")
  show "wf (measure (\<lambda>(t, key, val). length t))" by simp
next
  fix c :: char and rest :: string and key val :: string
  have "length (tl (dropWhile (\<lambda>x. x \<noteq> CHR ''}'') rest)) \<le> length rest"
    using length_dropWhile_le [of "\<lambda>x. x \<noteq> CHR ''}''" rest] by simp
  then show "((tl (dropWhile (\<lambda>x. x \<noteq> CHR ''}'') rest), key, val), c # rest, key, val)
      \<in> measure (\<lambda>(t, key, val). length t)"
    by simp
qed simp_all

text \<open>The value a field is replaced by: a string as it is, anything else through \<^verbatim>\<open>str\<close>.\<close>

definition format_value :: "engine \<Rightarrow> json \<Rightarrow> string" where
  "format_value self v = (case v of JStr s \<Rightarrow> s | _ \<Rightarrow> py_str self v)"

section \<open>Transport\<close>

text \<open>\<^verbatim>\<open>do_request(method, url)\<close>: one attempt, \<open>Inr\<close> the response (\<^verbatim>\<open>True, r\<close>) or \<open>Inl\<close> the
  description of the failure (\<^verbatim>\<open>False, str(e)\<close>).\<close>

definition do_request ::
  "engine \<Rightarrow> string \<Rightarrow> string \<Rightarrow> run_state \<Rightarrow> run_state \<times> (string + response)" where
  "do_request self meth u st =
     (st\<lparr>requests := requests st @ [(meth, u)]\<rparr>, send self (requests st) meth u)"

section \<open>Bootstrap check\<close>

definition check_base_path ::
  "engine \<Rightarrow> string \<Rightarrow> string \<Rightarrow> string \<Rightarrow> run_state \<Rightarrow> run_state \<times> outcome" where
  "check_base_path self base path expectation st =
     (let test = ''GET '' @ path in
      case do_request self ''GET'' (base @ path) st of
        (st1, Inl req) \<Rightarrow> (st1, Test_FAIL test (''Unable to connect to API: '' @ req))
      | (st1, Inr req) \<Rightarrow>
          if status_code req \<noteq> 200
            then (st1, Test_FAIL test (''Incorrect response code: '' @ str_int (status_code req)))
          else if \<not> validate_CORS ''GET'' req
            then (st1, Test_FAIL test (''Incorrect CORS headers: '' @ show_headers self (headers req)))
          else
            (case body req of
               None \<Rightarrow> (st1, Test_FAIL test ''Non-JSON response returned'')
             | Some (JArr entries) \<Rightarrow>
                 if JStr expectation \<notin> set entries
                   then (st1, Test_FAIL test
                          (''Response is not an array containing '' @ [CHR 0x27] @ expectation @ [CHR 0x27]))
                 else (st1, Test_PASS test)
             | Some _ \<Rightarrow> (st1, Test_FAIL test
                          (''Response is not an array containing '' @ [CHR 0x27] @ expectation @ [CHR 0x27]))))"

section \<open>Subresource cache\<close>

text \<open>The loop of \<^verbatim>\<open>save_subresources\<close> over the entries of a list body, appending to
  \<^verbatim>\<open>subresources\<close>.\<close>

fun gather_ids :: "json list \<Rightarrow> json list \<Rightarrow> json list" where
  "gather_ids subresources [] = subresources"
| "gather_ids subresources (entry # entries) =
     gather_ids
       (case entry of
          JObj items \<Rightarrow>
            (case map_of items ''id'' of
               Some v \<Rightarrow> subresources @ [v]
             | None \<Rightarrow> subresources)
        | JStr s \<Rightarrow>
            if endswith_slash s then subresources @ [JStr (rstrip_slash s)] else subresources
        | _ \<Rightarrow> subresources)
       entries"

text \<open>The list \<^verbatim>\<open>subresources\<close> after the \<^verbatim>\<open>try\<close> block: empty where the body is no JSON
  or no list.\<close>

definition subresources_of :: "response \<Rightarrow> json list" where
  "subresources_of response =
     (case body response of
        Some (JArr entries) \<Rightarrow> gather_ids [] entries
      | _ \<Rightarrow> [])"

definition save_subresources :: "string \<Rightarrow> response \<Rightarrow> run_state \<Rightarrow> run_state" where
  "save_subresources path response st =
     (let subresources = subresources_of response
      in if length subresources > 0 then
           (case saved_entities st path of
              None \<Rightarrow> st\<lparr>saved_entities := (saved_entities st)(path \<mapsto> subresources)\<rparr>
            | Some old \<Rightarrow> st\<lparr>saved_entities := (saved_entities st)(path \<mapsto> old @ subresources)\<rparr>)
         else st)"

section \<open>Per-endpoint check\<close>

text \<open>Lines 245 to 265 of \<^verbatim>\<open>check_api_resource\<close>, which both branches that built a URL and
  a test reach.\<close>

definition request_and_check ::
  "engine \<Rightarrow> resource \<Rightarrow> int \<Rightarrow> string \<times> api_instance \<Rightarrow> string \<Rightarrow> string \<Rightarrow> run_state
     \<Rightarrow> run_state \<times> (error + outcome option)" where
  "request_and_check self resource response_code api u test st =
     (case do_request self (http_method (snd resource)) u st of
        (st1, Inl response) \<Rightarrow> (st1, Inr (Some (Test_FAIL test response)))
      | (st1, Inr response) \<Rightarrow>
          if status_code response \<noteq> response_code
            then (st1, Inr (Some (Test_FAIL test
                   (''Incorrect response code: '' @ str_int (status_code response)))))
          else
            (let st2 = save_subresources (fst resource) response st1 in
             case get_schema (spec (snd api)) (http_method (snd resource)) (fst resource)
                    (status_code response) of
               None \<Rightarrow> (st2, Inr (Some (Test_MANUAL test ''Test suite unable to locate schema'')))
             | Some schema \<Rightarrow>
                 (case check_response self schema (http_method (snd resource)) response of
                    Inl e \<Rightarrow> (st2, Inl e)
                  | Inr (valid, msg) \<Rightarrow>
                      if valid then (st2, Inr (Some (Test_PASS test)))
                      else (st2, Inr (Some (Test_FAIL test msg))))))"

text \<open>The name of a per-endpoint test:
  \<^verbatim>\<open>"{} /x-nmos/{}/{}{}".format(method.upper(), api, self.test_version, tail)\<close>.\<close>

definition test_name :: "engine \<Rightarrow> resource \<Rightarrow> string \<Rightarrow> string \<Rightarrow> string" where
  "test_name self resource api_name tail =
     upper (http_method (snd resource)) @ '' /x-nmos/'' @ api_name @ ''/'' @ test_version self @ tail"

text \<open>\<open>api\<close> is the key \<^verbatim>\<open>api\<close> together with the entry \<^verbatim>\<open>self.apis[api]\<close>. \<open>Inr None\<close> is the
  return value \<^verbatim>\<open>None\<close>.\<close>

definition check_api_resource ::
  "engine \<Rightarrow> resource \<Rightarrow> int \<Rightarrow> string \<times> api_instance \<Rightarrow> run_state
     \<Rightarrow> run_state \<times> (error + outcome option)" where
  "check_api_resource self resource response_code api st =
     (if params (snd resource) \<noteq> [] \<and> length (params (snd resource)) = 1 then
        (let path = rstrip_slash (before_brace (fst resource)) in
         case saved_entities st path of
           Some entities \<Rightarrow>
             (case entities of
                [] \<Rightarrow> (st, Inl IndexError)
              | entity # _ \<Rightarrow>
                  (case str_format (fst resource) (hd (params (snd resource)))
                          (format_value self entity) of
                     Inl e \<Rightarrow> (st, Inl e)
                   | Inr url_param \<Rightarrow>
                       request_and_check self resource response_code api
                         (rstrip_slash (url (snd api)) @ url_param)
                         (test_name self resource (fst api) url_param) st))
         | None \<Rightarrow>
             (st, Inr (Some (Test_NA
                (test_name self resource (fst api) (rstrip_slash (fst resource)))
                ''No resources found to perform this test''))))
      else if params (snd resource) = [] then
        request_and_check self resource response_code api
          (rstrip_slash (url (snd api)) @ fst resource)
          (test_name self resource (fst api) (rstrip_slash (fst resource))) st
      else (st, Inr None))"

section \<open>The run\<close>

text \<open>The three nested loops of \<^verbatim>\<open>basics\<close>, innermost first; \<open>results\<close> is the list the
  method appends to. An exception ends the run with the state as it then is.\<close>

fun responses_loop ::
  "engine \<Rightarrow> string \<times> api_instance \<Rightarrow> resource \<Rightarrow> int list \<Rightarrow> outcome list \<Rightarrow> run_state
     \<Rightarrow> run_state \<times> (error + outcome list)" where
  "responses_loop self api resource [] results st = (st, Inr results)"
| "responses_loop self api resource (response_code # codes) results st =
     (if response_code = 200 \<and> fst resource \<notin> set (omit_paths self) then
        (case check_api_resource self resource response_code api st of
           (st1, Inl e) \<Rightarrow> (st1, Inl e)
         | (st1, Inr None) \<Rightarrow> responses_loop self api resource codes results st1
         | (st1, Inr (Some result)) \<Rightarrow>
             responses_loop self api resource codes (results @ [result]) st1)
      else responses_loop self api resource codes results st)"

fun reads_loop ::
  "engine \<Rightarrow> string \<times> api_instance \<Rightarrow> resource list \<Rightarrow> outcome list \<Rightarrow> run_state
     \<Rightarrow> run_state \<times> (error + outcome list)" where
  "reads_loop self api [] results st = (st, Inr results)"
| "reads_loop self api (resource # rest) results st =
     (case responses_loop self api resource (responses (snd resource)) results st of
        (st1, Inl e) \<Rightarrow> (st1, Inl e)
      | (st1, Inr results1) \<Rightarrow> reads_loop self api rest results1 st1)"

fun apis_loop ::
  "engine \<Rightarrow> (string \<times> api_instance) list \<Rightarrow> outcome list \<Rightarrow> run_state
     \<Rightarrow> run_state \<times> (error + outcome list)" where
  "apis_loop self [] results st = (st, Inr results)"
| "apis_loop self (api # rest) results st =
     (case check_base_path self (base_url (snd api)) ''/x-nmos'' (fst api @ ''/'') st of
        (st1, r1) \<Rightarrow>
          (case check_base_path self (base_url (snd api)) (''/x-nmos/'' @ fst api)
                  (test_version self @ ''/'') st1 of
             (st2, r2) \<Rightarrow>
               (case reads_loop self api (get_reads (spec (snd api))) (results @ [r1] @ [r2]) st2 of
                  (st3, Inl e) \<Rightarrow> (st3, Inl e)
                | (st3, Inr results3) \<Rightarrow> apis_loop self rest results3 st3)))"

definition basics :: "engine \<Rightarrow> run_state \<Rightarrow> run_state \<times> (error + outcome list)" where
  "basics self st = apis_loop self (apis self) [] st"

section \<open>Notions used in the statements\<close>

text \<open>The identifiers the cache holds for a path: none where the path is no key.\<close>

definition cached :: "run_state \<Rightarrow> string \<Rightarrow> json list" where
  "cached st path = (case saved_entities st path of None \<Rightarrow> [] | Some ids \<Rightarrow> ids)"

text \<open>No key of the cache is mapped to the empty list.\<close>

definition nonempty_entries :: "run_state \<Rightarrow> bool" where
  "nonempty_entries st = (\<forall>path ids. saved_entities st path = Some ids \<longrightarrow> ids \<noteq> [])"

text \<open>A template \<open>pre{name}post\<close> with one replacement field: no brace in the text around
  it, and a field name that is a keyword.\<close>

definition brace_free :: "string \<Rightarrow> bool" where
  "brace_free s = (CHR ''{'' \<notin> set s \<and> CHR ''}'' \<notin> set s)"

definition field_name :: "string \<Rightarrow> bool" where
  "field_name p = (plain_field p \<and> CHR ''}'' \<notin> set p \<and> \<not> list_all is_digit p)"

text \<open>The outcomes a run returns, \<open>[]\<close> where it raised.\<close>

definition results_of :: "run_state \<times> (error + outcome list) \<Rightarrow> outcome list" where
  "results_of r = (case snd r of Inl e \<Rightarrow> [] | Inr results \<Rightarrow> results)"

text \<open>The names of the two bootstrap tests of an API, and the order that puts the bootstrap
  outcomes of every API, in the order of the APIs, before all other outcomes.\<close>

definition bootstrap_names :: "string \<Rightarrow> string list" where
  "bootstrap_names api_name = [''GET /x-nmos'', ''GET /x-nmos/'' @ api_name]"

definition bootstraps_first :: "engine \<Rightarrow> outcome list \<Rightarrow> bool" where
  "bootstraps_first self results =
     (map name (take (2 * length (apis self)) results) =
        concat (map (\<lambda>api. bootstrap_names (fst api)) (apis self)))"

text \<open>An outcome named as the per-endpoint tests of an API are, for one of its readable
  endpoints.\<close>

definition endpoint_outcome :: "engine \<Rightarrow> string \<times> api_instance \<Rightarrow> outcome \<Rightarrow> bool" where
  "endpoint_outcome self api r =
     (\<exists>resource \<in> set (get_reads (spec (snd api))).
        prefix (test_name self resource (fst api) []) (name r))"

text \<open>The order the loop of \<^verbatim>\<open>basics\<close> gives: one block per API, in the order of the APIs,
  each the two bootstrap outcomes of the API followed by its per-endpoint outcomes.\<close>

fun api_blocks :: "engine \<Rightarrow> (string \<times> api_instance) list \<Rightarrow> outcome list \<Rightarrow> bool" where
  "api_blocks self [] results = (results = [])"
| "api_blocks self (api # rest) results =
     (\<exists>r1 r2 endpoints others.
        results = [r1, r2] @ endpoints @ others \<and>
        map name [r1, r2] = bootstrap_names (fst api) \<and>
        (\<forall>r \<in> set endpoints. endpoint_outcome self api r) \<and>
        api_blocks self rest others)"

section \<open>A run used as an example\<close>

text \<open>A node API with a collection, an endpoint with two parameters and an endpoint with one,
  and a query API without readable endpoints, on a server that answers every request of
  the run.\<close>

definition cors_headers :: "string \<rightharpoonup> string" where
  "cors_headers = [''Access-Control-Allow-Origin'' \<mapsto> ''*'']"

definition json_response :: "json \<Rightarrow> response" where
  "json_response j = \<lparr>status_code = 200, headers = cors_headers, body = Some j\<rparr>"

definition example_send :: "(string \<times> string) list \<Rightarrow> string \<Rightarrow> string \<Rightarrow> string + response" where
  "example_send history meth u =
     (if u = ''http://host/x-nmos'' then Inr (json_response (JArr [JStr ''node/'', JStr ''query/'']))
      else if u = ''http://host/x-nmos/node'' then Inr (json_response (JArr [JStr ''v1.2/'']))
      else if u = ''http://host/x-nmos/query'' then Inr (json_response (JArr [JStr ''v1.2/'']))
      else if u = ''http://host/x-nmos/node/v1.2/sources''
        then Inr (json_response (JArr [JObj [(''id'', JStr ''abc'')], JObj [(''id'', JStr ''def'')]]))
      else if u = ''http://host/x-nmos/node/v1.2/sources/abc''
        then Inr (json_response (JObj [(''id'', JStr ''abc'')]))
      else Inl ''Connection refused'')"

definition sources_resource :: resource where
  "sources_resource = (''/sources'', \<lparr>http_method = ''get'', params = [], responses = [200]\<rparr>)"

definition source_resource :: resource where
  "source_resource =
     (''/sources/{sourceId}'', \<lparr>http_method = ''get'', params = [''sourceId''], responses = [200]\<rparr>)"

definition flow_resource :: resource where
  "flow_resource =
     (''/sources/{sourceId}/flows/{flowId}'',
      \<lparr>http_method = ''get'', params = [''sourceId'', ''flowId''], responses = [200]\<rparr>)"

definition node_api :: "string \<times> api_instance" where
  "node_api =
     (''node'',
      \<lparr>base_url = ''http://host'', url = ''http://host/x-nmos/node/v1.2/'',
       spec = \<lparr>get_reads = [sources_resource, flow_resource, source_resource],
               get_schema = (\<lambda>meth path code. Some (JObj [(''type'', JStr ''object'')]))\<rparr>\<rparr>)"

definition query_api :: "string \<times> api_instance" where
  "query_api =
     (''query'',
      \<lparr>base_url = ''http://host'', url = ''http://host/x-nmos/query/v1.2/'',
       spec = \<lparr>get_reads = [],
               get_schema = (\<lambda>meth path code. None)\<rparr>\<rparr>)"

definition example_engine :: engine where
  "example_engine =
     \<lparr>apis = [node_api, query_api], test_version = ''v1.2'', omit_paths = [],
      send = example_send, validate = (\<lambda>schema instance. Conforms),
      show_headers = (\<lambda>h. ''{}''), py_str = (\<lambda>v. ''None'')\<rparr>"

definition seeded_state :: run_state where
  "seeded_state = \<lparr>saved_entities = [''/sources'' \<mapsto> [JStr ''old'']], requests = []\<rparr>"

section \<open>Strings and the harvesting loop\<close>

lemma gather_ids_acc: "gather_ids acc es = acc @ gather_ids [] es"
proof (induction es arbitrary: acc)
  case Nil show ?case by simp
next
  case (Cons e es)
  note ih = Cons.IH
  show ?case
  proof (cases e)
    case (JStr s)
    show ?thesis using ih [of "acc @ [JStr (rstrip_slash s)]"] ih [of "[JStr (rstrip_slash s)]"] ih [of acc]
      by (simp add: JStr)
  next
    case (JObj items)
    show ?thesis
    proof (cases "map_of items ''id''")
      case None
      then show ?thesis using ih [of acc] by (simp add: JObj)
    next
      case (Some v)
      then show ?thesis using ih [of "acc @ [v]"] ih [of "[v]"] by (simp add: JObj)
    qed
  qed (use ih [of acc] in simp_all)
qed

lemma gather_ids_append: "gather_ids acc (xs @ ys) = gather_ids acc xs @ gather_ids [] ys"
proof (induction xs arbitrary: acc)
  case Nil show ?case using gather_ids_acc [of acc ys] by simp
next
  case (Cons e xs) show ?case by (simp add: Cons.IH)
qed

lemma rstrip_slash_decompose:
  "s = rstrip_slash s @ replicate (length s - length (rstrip_slash s)) CHR ''/''"
proof -
  let ?P = "\<lambda>c. c = CHR ''/''"
  have "rev s = takeWhile ?P (rev s) @ dropWhile ?P (rev s)" by simp
  moreover have "takeWhile ?P (rev s) = replicate (length (takeWhile ?P (rev s))) CHR ''/''"
    by (rule replicate_length_same [symmetric]) (auto dest: set_takeWhileD)
  ultimately have "rev s = replicate (length (takeWhile ?P (rev s))) CHR ''/'' @ dropWhile ?P (rev s)"
    by simp
  then have "s = rev (dropWhile ?P (rev s)) @ replicate (length (takeWhile ?P (rev s))) CHR ''/''"
    by (metis rev_append rev_replicate rev_rev_ident)
  moreover have "length (takeWhile ?P (rev s)) = length s - length (rstrip_slash s)"
    unfolding rstrip_slash_def
    by (metis add_diff_cancel_right' length_append length_rev takeWhile_dropWhile_id)
  ultimately show ?thesis unfolding rstrip_slash_def by simp
qed

lemma rstrip_slash_no_trailing: "\<not> endswith_slash (rstrip_slash s)"
proof -
  let ?P = "\<lambda>c. c = CHR ''/''"
  have "dropWhile ?P (rev s) \<noteq> [] \<Longrightarrow> \<not> ?P (hd (dropWhile ?P (rev s)))"
    by (rule hd_dropWhile)
  then show ?thesis
    unfolding endswith_slash_def rstrip_slash_def by (auto simp: last_rev)
qed

lemma endswith_slash_shorter: "endswith_slash s \<Longrightarrow> length (rstrip_slash s) < length s"
proof -
  assume a: "endswith_slash s"
  then have "rev s \<noteq> []" and "hd (rev s) = CHR ''/''"
    by (auto simp: endswith_slash_def hd_rev)
  then have "length (dropWhile (\<lambda>c. c = CHR ''/'') (rev s)) < length (rev s)"
    by (cases "rev s") (auto simp: less_Suc_eq_le length_dropWhile_le)
  then show ?thesis by (simp add: rstrip_slash_def)
qed

section \<open>Path templates\<close>

lemma takeWhile_until: "c \<notin> set xs \<Longrightarrow> takeWhile (\<lambda>x. x \<noteq> c) (xs @ c # ys) = xs"
  by (induction xs) auto

lemma dropWhile_until: "c \<notin> set xs \<Longrightarrow> dropWhile (\<lambda>x. x \<noteq> c) (xs @ c # ys) = c # ys"
  by (induction xs) auto

lemma str_format_literal: "brace_free s \<Longrightarrow> str_format s key val = Inr s"
  by (induction s) (auto simp: brace_free_def)

lemma field_name_nonempty: "field_name p \<Longrightarrow> p \<noteq> []"
  by (auto simp: field_name_def)

lemma str_format_field:
  assumes "field_name p" and "brace_free post"
  shows "str_format (CHR ''{'' # p @ CHR ''}'' # post) p val = Inr (val @ post)"
proof -
  let ?rest = "p @ CHR ''}'' # post"
  obtain d p' where p: "p = d # p'"
    using field_name_nonempty [OF assms(1)] by (cases p) auto
  have d: "d \<noteq> CHR ''{''"
    using assms(1) by (auto simp: field_name_def plain_field_def p)
  have tw: "takeWhile (\<lambda>x. x \<noteq> CHR ''}'') ?rest = p"
    using assms(1) by (simp add: field_name_def takeWhile_until)
  have dw: "dropWhile (\<lambda>x. x \<noteq> CHR ''}'') ?rest = CHR ''}'' # post"
    using assms(1) by (simp add: field_name_def dropWhile_until)
  have "str_format (CHR ''{'' # ?rest) p val =
      (case str_format post p val of Inl e \<Rightarrow> Inl e | Inr s \<Rightarrow> Inr (val @ s))"
    apply (subst str_format.simps(2))
    apply (simp only: tw dw)
    using assms(1) d apply (auto simp add: p field_name_def simp del: str_format.simps)
    done
  then show ?thesis
    using str_format_literal [OF assms(2)] by simp
qed

lemma str_format_template:
  assumes "brace_free pre" and "field_name p" and "brace_free post"
  shows "str_format (pre @ ''{'' @ p @ ''}'' @ post) p val = Inr (pre @ val @ post)"
  using assms(1)
proof (induction pre)
  case Nil
  show ?case using str_format_field [OF assms(2,3)] by simp
next
  case (Cons c pre)
  then have "brace_free pre" and "c \<noteq> CHR ''{''" and "c \<noteq> CHR ''}''"
    by (auto simp: brace_free_def)
  with Cons.IH show ?case by simp
qed

lemma before_brace_template:
  "brace_free pre \<Longrightarrow> before_brace (pre @ ''{'' @ rest) = pre"
  by (simp add: before_brace_def brace_free_def takeWhile_until)

section \<open>Requests made by a check\<close>

lemma do_request_state:
  "fst (do_request self m u st) = st\<lparr>requests := requests st @ [(m, u)]\<rparr>"
  by (simp add: do_request_def)

lemma save_subresources_requests [simp]:
  "requests (save_subresources p r st) = requests st"
  by (simp add: save_subresources_def Let_def split: option.splits)

lemma request_and_check_requests:
  "requests (fst (request_and_check self resource code api u test st)) =
     requests st @ [(http_method (snd resource), u)]"
  by (simp add: request_and_check_def do_request_def Let_def
      split: sum.splits option.splits prod.splits)

section \<open>Endpoints with several parameters\<close>

lemmas branch_congs = if_cong sum.case_cong option.case_cong prod.case_cong list.case_cong
  json.case_cong validation.case_cong

lemma check_api_resource_many_params:
  "1 < length (params (snd resource)) \<Longrightarrow>
     check_api_resource self resource response_code api st = (st, Inr None)"
  by (auto simp: check_api_resource_def)

lemma responses_loop_many_params:
  "1 < length (params (snd resource)) \<Longrightarrow>
     responses_loop self api resource codes results st = (st, Inr results)"
  by (induction codes) (simp_all add: check_api_resource_many_params)

lemma reads_loop_many_params:
  "1 < length (params (snd resource)) \<Longrightarrow>
     reads_loop self api (before @ [resource] @ after) results st =
     reads_loop self api (before @ after) results st"
proof (induction before arbitrary: results st)
  case Nil
  then show ?case by (simp add: responses_loop_many_params)
next
  case (Cons r before)
  then show ?case by (simp cong: branch_congs)
qed

lemma check_api_resource_cong:
  assumes "fst api = fst api'" and "url (snd api) = url (snd api')"
    and "get_schema (spec (snd api)) = get_schema (spec (snd api'))"
  shows "check_api_resource self resource code api st = check_api_resource self resource code api' st"
  unfolding check_api_resource_def request_and_check_def assms by (rule refl)

lemma responses_loop_cong:
  assumes "fst api = fst api'" and "url (snd api) = url (snd api')"
    and "get_schema (spec (snd api)) = get_schema (spec (snd api'))"
  shows "responses_loop self api resource codes results st =
         responses_loop self api' resource codes results st"
proof (induction codes arbitrary: results st)
  case Nil show ?case by simp
next
  case (Cons c codes)
  show ?case
    unfolding responses_loop.simps check_api_resource_cong [OF assms] Cons.IH by (rule refl)
qed

lemma reads_loop_cong:
  assumes "fst api = fst api'" and "url (snd api) = url (snd api')"
    and "get_schema (spec (snd api)) = get_schema (spec (snd api'))"
  shows "reads_loop self api reads results st = reads_loop self api' reads results st"
proof (induction reads arbitrary: results st)
  case Nil show ?case by simp
next
  case (Cons r reads)
  show ?case
    unfolding reads_loop.simps responses_loop_cong [OF assms] Cons.IH by (rule refl)
qed

lemma check_base_path_apis [simp]:
  "check_base_path (self\<lparr>apis := X\<rparr>) base path e st = check_base_path self base path e st"
  by (simp add: check_base_path_def do_request_def Let_def cong: branch_congs)

lemma check_api_resource_apis [simp]:
  "check_api_resource (self\<lparr>apis := X\<rparr>) resource code api st =
   check_api_resource self resource code api st"
  by (simp add: check_api_resource_def request_and_check_def do_request_def
      check_response_def test_name_def format_value_def Let_def cong: branch_congs)

lemma responses_loop_apis [simp]:
  "responses_loop (self\<lparr>apis := X\<rparr>) api resource codes results st =
   responses_loop self api resource codes results st"
  by (induction codes arbitrary: results st) (simp_all cong: branch_congs)

lemma reads_loop_apis [simp]:
  "reads_loop (self\<lparr>apis := X\<rparr>) api reads results st = reads_loop self api reads results st"
  by (induction reads arbitrary: results st) (simp_all cong: branch_congs)

lemma apis_loop_apis [simp]:
  "apis_loop (self\<lparr>apis := X\<rparr>) as results st = apis_loop self as results st"
  by (induction as arbitrary: results st) (simp_all cong: branch_congs)

lemma apis_loop_many_params:
  assumes "1 < length (params (snd resource))"
    and "get_reads (spec a) = before @ [resource] @ after"
  shows "apis_loop self (as1 @ [(n, a)] @ as2) results st =
         apis_loop self
           (as1 @ [(n, a\<lparr>spec := (spec a)\<lparr>get_reads := before @ after\<rparr>\<rparr>)] @ as2) results st"
proof (induction as1 arbitrary: results st)
  case Nil
  let ?a' = "a\<lparr>spec := (spec a)\<lparr>get_reads := before @ after\<rparr>\<rparr>"
  have "reads_loop self (n, a) (before @ [resource] @ after) rs s =
        reads_loop self (n, ?a') (before @ after) rs s" for rs s
    using reads_loop_many_params [OF assms(1), of self "(n, a)" before after rs s]
      reads_loop_cong [of "(n, a)" "(n, ?a')" self "before @ after" rs s]
    by simp
  then show ?case by (simp add: assms(2) cong: branch_congs)
next
  case (Cons b as1)
  then show ?case by (simp cong: branch_congs)
qed

section \<open>What a run does to the cache\<close>

lemma request_and_check_state:
  "\<exists>response. fst (request_and_check self resource code api u test st) =
       st\<lparr>requests := requests st @ [(http_method (snd resource), u)]\<rparr> \<or>
     fst (request_and_check self resource code api u test st) =
       save_subresources (fst resource) response
         (st\<lparr>requests := requests st @ [(http_method (snd resource), u)]\<rparr>)"
  by (auto simp: request_and_check_def do_request_def Let_def
      split: sum.splits option.splits prod.splits)

lemma check_api_resource_state:
  "\<exists>response rq. fst (check_api_resource self resource code api st) = st \<or>
     fst (check_api_resource self resource code api st) = st\<lparr>requests := rq\<rparr> \<or>
     fst (check_api_resource self resource code api st) =
       save_subresources (fst resource) response (st\<lparr>requests := rq\<rparr>)"
proof -
  have "\<exists>response rq. fst (request_and_check self resource code api u test st) = st\<lparr>requests := rq\<rparr> \<or>
      fst (request_and_check self resource code api u test st) =
        save_subresources (fst resource) response (st\<lparr>requests := rq\<rparr>)" for u test
    using request_and_check_state [of self resource code api u test st] by blast
  then show ?thesis
    by (auto simp: check_api_resource_def Let_def split: option.splits list.splits sum.splits)
qed

lemma check_base_path_state:
  "fst (check_base_path self base path e st) = st\<lparr>requests := requests st @ [(''GET'', base @ path)]\<rparr>"
  by (simp add: check_base_path_def do_request_def Let_def
      split: sum.splits option.splits json.splits)

lemma check_api_resource_preserves:
  assumes harvest: "\<And>p r s. Q s \<Longrightarrow> Q (save_subresources p r s)"
    and log: "\<And>s rq. Q s \<Longrightarrow> Q (s\<lparr>requests := rq\<rparr>)"
    and "Q st"
  shows "Q (fst (check_api_resource self resource code api st))"
  using check_api_resource_state [of self resource code api st] assms by metis

lemma responses_loop_preserves:
  assumes harvest: "\<And>p r s. Q s \<Longrightarrow> Q (save_subresources p r s)"
    and log: "\<And>s rq. Q s \<Longrightarrow> Q (s\<lparr>requests := rq\<rparr>)"
  shows "Q st \<Longrightarrow> Q (fst (responses_loop self api resource codes results st))"
proof (induction codes arbitrary: results st)
  case Nil then show ?case by simp
next
  case (Cons c codes)
  have "Q (fst (check_api_resource self resource c api st))"
    using check_api_resource_preserves [of Q, OF harvest log Cons.prems] by simp
  then show ?case
    using Cons.IH Cons.prems
    by (auto split: prod.splits sum.splits option.splits)
qed

lemma reads_loop_preserves:
  assumes harvest: "\<And>p r s. Q s \<Longrightarrow> Q (save_subresources p r s)"
    and log: "\<And>s rq. Q s \<Longrightarrow> Q (s\<lparr>requests := rq\<rparr>)"
  shows "Q st \<Longrightarrow> Q (fst (reads_loop self api reads results st))"
proof (induction reads arbitrary: results st)
  case Nil then show ?case by simp
next
  case (Cons r reads)
  have "Q (fst (responses_loop self api r (responses (snd r)) results st))"
    using responses_loop_preserves [of Q, OF harvest log Cons.prems] by simp
  then show ?case
    using Cons.IH by (auto split: prod.splits sum.splits)
qed

lemma apis_loop_preserves:
  assumes harvest: "\<And>p r s. Q s \<Longrightarrow> Q (save_subresources p r s)"
    and log: "\<And>s rq. Q s \<Longrightarrow> Q (s\<lparr>requests := rq\<rparr>)"
  shows "Q st \<Longrightarrow> Q (fst (apis_loop self as results st))"
proof (induction as arbitrary: results st)
  case Nil then show ?case by simp
next
  case (Cons a as)
  obtain st1 r1 where c1: "check_base_path self (base_url (snd a)) ''/x-nmos'' (fst a @ ''/'') st = (st1, r1)"
    by (cases "check_base_path self (base_url (snd a)) ''/x-nmos'' (fst a @ ''/'') st")
  obtain st2 r2 where c2: "check_base_path self (base_url (snd a)) (''/x-nmos/'' @ fst a)
      (test_version self @ ''/'') st1 = (st2, r2)"
    by (cases "check_base_path self (base_url (snd a)) (''/x-nmos/'' @ fst a)
      (test_version self @ ''/'') st1")
  have "Q st1"
    using check_base_path_state [of self "base_url (snd a)" "''/x-nmos''" "fst a @ ''/''" st] c1
      log [OF Cons.prems] by simp
  then have "Q st2"
    using check_base_path_state [of self "base_url (snd a)" "''/x-nmos/'' @ fst a"
        "test_version self @ ''/''" st1] c2 log by simp
  then have "Q (fst (reads_loop self a (get_reads (spec (snd a))) (results @ [r1] @ [r2]) st2))"
    using reads_loop_preserves [of Q, OF harvest log] by simp
  then show ?case
    using Cons.IH c1 c2 by (auto split: prod.splits sum.splits)
qed

lemma basics_preserves:
  assumes harvest: "\<And>p r s. Q s \<Longrightarrow> Q (save_subresources p r s)"
    and log: "\<And>s rq. Q s \<Longrightarrow> Q (s\<lparr>requests := rq\<rparr>)"
    and "Q st"
  shows "Q (fst (basics self st))"
  unfolding basics_def using apis_loop_preserves [of Q, OF harvest log assms(3)] by simp

lemma cached_save_subresources:
  "cached (save_subresources p r st) q =
     (if q = p then cached st q @ subresources_of r else cached st q)"
  by (auto simp: cached_def save_subresources_def Let_def split: option.splits)

lemma dom_save_subresources:
  "dom (saved_entities st) \<subseteq> dom (saved_entities (save_subresources p r st))"
  by (auto simp: save_subresources_def Let_def split: option.splits)

lemma nonempty_save_subresources:
  "nonempty_entries st \<Longrightarrow> nonempty_entries (save_subresources p r st)"
  by (auto simp: nonempty_entries_def save_subresources_def Let_def split: option.splits if_splits)

lemma cached_requests [simp]: "cached (s\<lparr>requests := rq\<rparr>) q = cached s q"
  by (simp add: cached_def)

lemma nonempty_requests [simp]: "nonempty_entries (s\<lparr>requests := rq\<rparr>) = nonempty_entries s"
  by (simp add: nonempty_entries_def)

lemma never_shortened_harvest:
  assumes "prefix (cached st0 q) (cached s q) \<and> dom (saved_entities st0) \<subseteq> dom (saved_entities s)"
  shows "prefix (cached st0 q) (cached (save_subresources p r s) q) \<and>
         dom (saved_entities st0) \<subseteq> dom (saved_entities (save_subresources p r s))"
proof
  show "prefix (cached st0 q) (cached (save_subresources p r s) q)"
    using assms by (auto simp: cached_save_subresources prefix_def)
  show "dom (saved_entities st0) \<subseteq> dom (saved_entities (save_subresources p r s))"
    using assms dom_save_subresources [of s p r] by blast
qed

lemma validate_CORS_body [simp]:
  "validate_CORS meth (response\<lparr>body := b\<rparr>) = validate_CORS meth response"
  by (simp add: validate_CORS_def)

section \<open>The order of the outcomes\<close>

lemma request_and_check_name:
  "request_and_check self resource code api u test st = (st', Inr (Some r)) \<Longrightarrow> name r = test"
  by (auto simp: request_and_check_def Let_def Test_PASS_def Test_FAIL_def Test_MANUAL_def
      split: sum.splits option.splits prod.splits if_splits)

lemma test_name_prefix: "prefix (test_name self resource n []) (test_name self resource n tail)"
  by (simp add: test_name_def)

lemma check_api_resource_name:
  assumes "check_api_resource self resource code api st = (st', Inr (Some r))"
  shows "prefix (test_name self resource (fst api) []) (name r)"
proof -
  have "\<exists>tail. name r = test_name self resource (fst api) tail"
    using assms
    by (auto simp: check_api_resource_def Let_def Test_NA_def
        split: option.splits list.splits sum.splits if_splits
        dest: request_and_check_name)
  then show ?thesis using test_name_prefix by metis
qed

lemma responses_loop_results:
  "responses_loop self api resource codes results st = (st', Inr rs) \<Longrightarrow>
     \<exists>new. rs = results @ new \<and>
       (\<forall>r \<in> set new. prefix (test_name self resource (fst api) []) (name r))"
proof (induction codes arbitrary: results st)
  case Nil then show ?case by simp
next
  case (Cons c codes)
  show ?case
  proof (cases "c = 200 \<and> fst resource \<notin> set (omit_paths self)")
    case False
    then have "responses_loop self api resource codes results st = (st', Inr rs)"
      using Cons.prems by auto
    then show ?thesis by (rule Cons.IH)
  next
    case True
    obtain st1 x where chk: "check_api_resource self resource c api st = (st1, x)"
      by (cases "check_api_resource self resource c api st")
    show ?thesis
    proof (cases x)
      case (Inl e)
      then show ?thesis using Cons.prems True chk by simp
    next
      case (Inr result)
      show ?thesis
      proof (cases result)
        case None
        then have "responses_loop self api resource codes results st1 = (st', Inr rs)"
          using Cons.prems True chk Inr by simp
        then show ?thesis by (rule Cons.IH)
      next
        case (Some r)
        then have "responses_loop self api resource codes (results @ [r]) st1 = (st', Inr rs)"
          using Cons.prems True chk Inr by simp
        then obtain new where new: "rs = (results @ [r]) @ new"
          "\<forall>r \<in> set new. prefix (test_name self resource (fst api) []) (name r)"
          using Cons.IH by blast
        moreover have "prefix (test_name self resource (fst api) []) (name r)"
          using check_api_resource_name chk Inr Some by blast
        ultimately have "rs = results @ (r # new) \<and>
            (\<forall>r \<in> set (r # new). prefix (test_name self resource (fst api) []) (name r))"
          by simp
        then show ?thesis by blast
      qed
    qed
  qed
qed

lemma reads_loop_results:
  "reads_loop self api reads results st = (st', Inr rs) \<Longrightarrow>
     \<exists>new. rs = results @ new \<and>
       (\<forall>r \<in> set new. \<exists>resource \<in> set reads.
          prefix (test_name self resource (fst api) []) (name r))"
proof (induction reads arbitrary: results st)
  case Nil then show ?case by simp
next
  case (Cons resource reads)
  obtain st1 x where lp: "responses_loop self api resource (responses (snd resource)) results st = (st1, x)"
    by (cases "responses_loop self api resource (responses (snd resource)) results st")
  show ?case
  proof (cases x)
    case (Inl e)
    then show ?thesis using Cons.prems lp by simp
  next
    case (Inr results1)
    then have rest: "reads_loop self api reads results1 st1 = (st', Inr rs)"
      using Cons.prems lp by simp
    obtain new1 where new1: "results1 = results @ new1"
      "\<forall>r \<in> set new1. prefix (test_name self resource (fst api) []) (name r)"
      using responses_loop_results lp Inr by blast
    obtain new2 where new2: "rs = results1 @ new2"
      "\<forall>r \<in> set new2. \<exists>resource \<in> set reads.
          prefix (test_name self resource (fst api) []) (name r)"
      using Cons.IH [OF rest] by blast
    have "rs = results @ (new1 @ new2)" using new1(1) new2(1) by simp
    moreover have "\<forall>r \<in> set (new1 @ new2). \<exists>res \<in> set (resource # reads).
          prefix (test_name self res (fst api) []) (name r)"
      using new1(2) new2(2) by auto
    ultimately show ?thesis by blast
  qed
qed

lemma check_base_path_name: "name (snd (check_base_path self base path e st)) = ''GET '' @ path"
  by (simp add: check_base_path_def do_request_def Let_def Test_PASS_def Test_FAIL_def
      split: sum.splits option.splits json.splits)

lemma apis_loop_results:
  "apis_loop self as results st = (st', Inr rs) \<Longrightarrow>
     \<exists>new. rs = results @ new \<and> api_blocks self as new"
proof (induction as arbitrary: results st)
  case Nil then show ?case by simp
next
  case (Cons a as)
  obtain st1 r1 where c1: "check_base_path self (base_url (snd a)) ''/x-nmos'' (fst a @ ''/'') st = (st1, r1)"
    by (cases "check_base_path self (base_url (snd a)) ''/x-nmos'' (fst a @ ''/'') st")
  obtain st2 r2 where c2: "check_base_path self (base_url (snd a)) (''/x-nmos/'' @ fst a)
      (test_version self @ ''/'') st1 = (st2, r2)"
    by (cases "check_base_path self (base_url (snd a)) (''/x-nmos/'' @ fst a)
      (test_version self @ ''/'') st1")
  obtain st3 x where lp: "reads_loop self a (get_reads (spec (snd a))) (results @ [r1] @ [r2]) st2 = (st3, x)"
    by (cases "reads_loop self a (get_reads (spec (snd a))) (results @ [r1] @ [r2]) st2")
  have n1: "name r1 = ''GET /x-nmos''"
    using check_base_path_name [of self "base_url (snd a)" "''/x-nmos''" "fst a @ ''/''" st] c1 by simp
  have n2: "name r2 = ''GET /x-nmos/'' @ fst a"
    using check_base_path_name [of self "base_url (snd a)" "''/x-nmos/'' @ fst a"
        "test_version self @ ''/''" st1] c2 by simp
  show ?case
  proof (cases x)
    case (Inl e)
    then show ?thesis using Cons.prems c1 c2 lp by simp
  next
    case (Inr results3)
    then have rest: "apis_loop self as results3 st3 = (st', Inr rs)"
      using Cons.prems c1 c2 lp by simp
    obtain endpoints where ep: "results3 = (results @ [r1] @ [r2]) @ endpoints"
      "\<forall>r \<in> set endpoints. endpoint_outcome self a r"
      using reads_loop_results lp Inr unfolding endpoint_outcome_def by blast
    obtain others where ot: "rs = results3 @ others" "api_blocks self as others"
      using Cons.IH [OF rest] by blast
    have "rs = results @ ([r1, r2] @ endpoints @ others)"
      using ep(1) ot(1) by simp
    moreover have "api_blocks self (a # as) ([r1, r2] @ endpoints @ others)"
      unfolding api_blocks.simps
      using n1 n2 ep(2) ot(2) by (auto simp: bootstrap_names_def)
    ultimately show ?thesis by blast
  qed
qed

section \<open>The example run\<close>

lemmas example_defs = example_engine_def node_api_def query_api_def sources_resource_def
  source_resource_def flow_resource_def example_send_def json_response_def cors_headers_def

lemmas engine_defs = check_api_resource_def request_and_check_def do_request_def
  save_subresources_def subresources_of_def check_response_def validate_CORS_def
  check_base_path_def test_name_def Test_PASS_def Test_FAIL_def Test_NA_def Test_MANUAL_def
  rstrip_slash_def before_brace_def upper_def upper_char_def format_value_def
  endswith_slash_def plain_field_def is_digit_def str_int_def

lemma example_run:
  "basics example_engine initial_state =
     (\<lparr>saved_entities = [''/sources'' \<mapsto> [JStr ''abc'', JStr ''def'']],
       requests =
         [(''GET'', ''http://host/x-nmos''),
          (''GET'', ''http://host/x-nmos/node''),
          (''get'', ''http://host/x-nmos/node/v1.2/sources''),
          (''get'', ''http://host/x-nmos/node/v1.2/sources/abc''),
          (''GET'', ''http://host/x-nmos''),
          (''GET'', ''http://host/x-nmos/query'')]\<rparr>,
      Inr [\<lparr>name = ''GET /x-nmos'', state = PASS, message = None\<rparr>,
           \<lparr>name = ''GET /x-nmos/node'', state = PASS, message = None\<rparr>,
           \<lparr>name = ''GET /x-nmos/node/v1.2/sources'', state = PASS, message = None\<rparr>,
           \<lparr>name = ''GET /x-nmos/node/v1.2/sources/abc'', state = PASS, message = None\<rparr>,
           \<lparr>name = ''GET /x-nmos'', state = PASS, message = None\<rparr>,
           \<lparr>name = ''GET /x-nmos/query'', state = PASS, message = None\<rparr>])"
  by (simp add: basics_def example_defs engine_defs initial_state_def Let_def)

lemma seeded_run:
  "fst (basics example_engine seeded_state) =
     \<lparr>saved_entities = [''/sources'' \<mapsto> [JStr ''old'', JStr ''abc'', JStr ''def'']],
       requests =
         [(''GET'', ''http://host/x-nmos''),
          (''GET'', ''http://host/x-nmos/node''),
          (''get'', ''http://host/x-nmos/node/v1.2/sources''),
          (''get'', ''http://host/x-nmos/node/v1.2/sources/old''),
          (''GET'', ''http://host/x-nmos''),
          (''GET'', ''http://host/x-nmos/query'')]\<rparr>"
  by (simp add: basics_def example_defs engine_defs seeded_state_def Let_def)

section \<open>The claims\<close>

subsection \<open>C1\<close>

text \<open>
  Claim C1, as the code has it. The outcomes a run returns are one block per API instance,
  in the order of the instances: the two bootstrap outcomes of the instance, then the
  outcomes of the per-endpoint checks of that instance. The bootstrap outcomes of an
  instance precede its own per-endpoint outcomes; they do not precede those of an earlier
  instance.
\<close>

theorem basics_order:
  assumes "snd (basics self st) = Inr results"
  shows "api_blocks self (apis self) results"
proof -
  obtain st' where "apis_loop self (apis self) [] st = (st', Inr results)"
    using assms unfolding basics_def by (cases "apis_loop self (apis self) [] st") auto
  then show ?thesis using apis_loop_results by fastforce
qed

theorem basics_order_witness:
  "snd (basics example_engine initial_state) =
     Inr [\<lparr>name = ''GET /x-nmos'', state = PASS, message = None\<rparr>,
          \<lparr>name = ''GET /x-nmos/node'', state = PASS, message = None\<rparr>,
          \<lparr>name = ''GET /x-nmos/node/v1.2/sources'', state = PASS, message = None\<rparr>,
          \<lparr>name = ''GET /x-nmos/node/v1.2/sources/abc'', state = PASS, message = None\<rparr>,
          \<lparr>name = ''GET /x-nmos'', state = PASS, message = None\<rparr>,
          \<lparr>name = ''GET /x-nmos/query'', state = PASS, message = None\<rparr>] \<and>
   api_blocks example_engine [node_api, query_api]
     [\<lparr>name = ''GET /x-nmos'', state = PASS, message = None\<rparr>,
      \<lparr>name = ''GET /x-nmos/node'', state = PASS, message = None\<rparr>,
      \<lparr>name = ''GET /x-nmos/node/v1.2/sources'', state = PASS, message = None\<rparr>,
      \<lparr>name = ''GET /x-nmos/node/v1.2/sources/abc'', state = PASS, message = None\<rparr>,
      \<lparr>name = ''GET /x-nmos'', state = PASS, message = None\<rparr>,
      \<lparr>name = ''GET /x-nmos/query'', state = PASS, message = None\<rparr>]"
  using basics_order [of example_engine initial_state] example_run
  by (simp add: example_engine_def)

text \<open>
  Claim C1 as stated fails: in the example run the two per-endpoint outcomes of the node API
  precede both bootstrap outcomes of the query API.
\<close>

theorem basics_order_counterexample:
  "map name (results_of (basics example_engine initial_state)) =
     [''GET /x-nmos'', ''GET /x-nmos/node'',
      ''GET /x-nmos/node/v1.2/sources'', ''GET /x-nmos/node/v1.2/sources/abc'',
      ''GET /x-nmos'', ''GET /x-nmos/query''] \<and>
   \<not> bootstraps_first example_engine (results_of (basics example_engine initial_state))"
proof -
  have "apis example_engine = [node_api, query_api]"
    by (simp add: example_engine_def)
  then show ?thesis
    by (simp add: example_run results_of_def bootstraps_first_def bootstrap_names_def
        node_api_def query_api_def)
qed

subsection \<open>C2\<close>

text \<open>
  Claim C2, as the code has it. For an endpoint without path parameters the request goes to
  the \<open>url\<close> of the API instance with its trailing slashes removed, followed by the path
  template as it is, whatever the cache holds.
\<close>

theorem zero_params_url:
  assumes "params (snd resource) = []"
  shows "requests (fst (check_api_resource self resource response_code api
                     (st\<lparr>saved_entities := cache\<rparr>))) =
           requests st @ [(http_method (snd resource), rstrip_slash (url (snd api)) @ fst resource)]"
  using assms by (simp add: check_api_resource_def request_and_check_requests)

theorem zero_params_url_witness:
  "requests (fst (check_api_resource example_engine sources_resource 200 node_api
                     (initial_state\<lparr>saved_entities := [''/sources'' \<mapsto> [JStr ''x'']]\<rparr>))) =
     [(''get'', ''http://host/x-nmos/node/v1.2/sources'')]"
  using zero_params_url [where resource = sources_resource and self = example_engine
      and response_code = 200 and api = node_api and st = initial_state
      and cache = "[''/sources'' \<mapsto> [JStr ''x'']]"]
  by (simp add: sources_resource_def node_api_def initial_state_def rstrip_slash_def)

text \<open>
  Claim C2 as stated fails where the URL of the instance ends in a slash: the request goes
  to \<^verbatim>\<open>.../v1.2/sources\<close>, which is neither \<open>url\<close> nor \<open>base_url\<close> followed by the template.
\<close>

theorem zero_params_url_counterexample:
  "requests (fst (check_api_resource example_engine sources_resource 200 node_api initial_state)) =
     [(''get'', ''http://host/x-nmos/node/v1.2/sources'')] \<and>
   url (snd node_api) @ fst sources_resource = ''http://host/x-nmos/node/v1.2//sources'' \<and>
   base_url (snd node_api) @ fst sources_resource = ''http://host/sources'' \<and>
   ''http://host/x-nmos/node/v1.2/sources'' \<noteq> url (snd node_api) @ fst sources_resource \<and>
   ''http://host/x-nmos/node/v1.2/sources'' \<noteq> base_url (snd node_api) @ fst sources_resource"
  by (simp add: example_defs engine_defs initial_state_def Let_def)

subsection \<open>C3\<close>

text \<open>
  Claim C3. For an endpoint with exactly one path parameter and no cache entry for its parent
  path, the check returns the outcome NA with the message
  \<^verbatim>\<open>No resources found to perform this test\<close> and leaves the state as it was: no request is
  made.
\<close>

theorem one_param_empty_cache:
  assumes "length (params (snd resource)) = 1"
    and "saved_entities st (rstrip_slash (before_brace (fst resource))) = None"
  shows "check_api_resource self resource response_code api st =
           (st, Inr (Some \<lparr>name = test_name self resource (fst api) (rstrip_slash (fst resource)),
                            state = NA,
                            message = Some ''No resources found to perform this test''\<rparr>)) \<and>
         requests (fst (check_api_resource self resource response_code api st)) = requests st"
  using assms by (auto simp: check_api_resource_def Test_NA_def Let_def)

theorem one_param_empty_cache_witness:
  "check_api_resource example_engine source_resource 200 node_api initial_state =
     (initial_state,
      Inr (Some \<lparr>name = ''GET /x-nmos/node/v1.2/sources/{sourceId}'', state = NA,
                 message = Some ''No resources found to perform this test''\<rparr>)) \<and>
   requests (fst (check_api_resource example_engine source_resource 200 node_api initial_state)) = []"
  using one_param_empty_cache [where resource = source_resource and st = initial_state
      and self = example_engine and response_code = 200 and api = node_api]
  by (simp add: example_defs initial_state_def test_name_def upper_def upper_char_def
      rstrip_slash_def before_brace_def)

subsection \<open>C4\<close>

text \<open>
  Claim C4. For an endpoint with exactly one path parameter, whose template is text free of
  braces around the one field \<open>{name}\<close>, and a cache entry \<open>first # others\<close> for the parent
  path, the request goes to the URL of the instance followed by the template with \<open>first\<close> in
  the place of the field.
\<close>

theorem one_param_first_identifier:
  assumes "length (params (snd resource)) = 1"
    and "fst resource = pre @ ''{'' @ hd (params (snd resource)) @ ''}'' @ post"
    and "brace_free pre" and "field_name (hd (params (snd resource)))" and "brace_free post"
    and "saved_entities st (rstrip_slash pre) = Some (first # others)"
  shows "requests (fst (check_api_resource self resource response_code api st)) =
           requests st @
           [(http_method (snd resource),
             rstrip_slash (url (snd api)) @ pre @ format_value self first @ post)]"
proof -
  have "before_brace (fst resource) = pre"
    using assms(2,3) before_brace_template by simp
  moreover have "str_format (fst resource) (hd (params (snd resource))) (format_value self first) =
      Inr (pre @ format_value self first @ post)"
    using str_format_template [OF assms(3,4,5)] assms(2) by simp
  ultimately show ?thesis
    using assms(1,6)
    by (auto simp: check_api_resource_def Let_def request_and_check_requests)
qed

theorem one_param_first_identifier_witness:
  "requests (fst (check_api_resource example_engine source_resource 200 node_api
      (initial_state\<lparr>saved_entities := [''/sources'' \<mapsto> [JStr ''abc'', JStr ''def'']]\<rparr>))) =
     [(''get'', ''http://host/x-nmos/node/v1.2/sources/abc'')]"
  using one_param_first_identifier [where resource = source_resource and pre = "''/sources/''"
      and post = "[]" and first = "JStr ''abc''" and others = "[JStr ''def'']"
      and st = "initial_state\<lparr>saved_entities := [''/sources'' \<mapsto> [JStr ''abc'', JStr ''def'']]\<rparr>"
      and self = example_engine and response_code = 200 and api = node_api]
  by (simp add: example_defs initial_state_def rstrip_slash_def brace_free_def field_name_def
      plain_field_def is_digit_def format_value_def)

subsection \<open>C5\<close>

text \<open>
  Claim C5. A harvest appends the identifiers of the response, in their order and with
  their repetitions, to the entry of its path and changes no other entry: \<open>[a, b]\<close> and then
  \<open>[c]\<close> give \<open>[a, b, c]\<close>, the same identifier twice gives two entries. Through a check and
  through a whole run every entry of the cache stays and keeps what it held as a prefix.
\<close>

theorem harvest_append_only:
  "cached (save_subresources path response st) q =
     (if q = path then cached st q @ subresources_of response else cached st q) \<and>
   (subresources_of r1 = [a, b] \<and> subresources_of r2 = [c] \<longrightarrow>
      cached (save_subresources path r2 (save_subresources path r1 st)) path =
        cached st path @ [a, b, c]) \<and>
   (subresources_of r1 = [a] \<longrightarrow>
      cached (save_subresources path r1 (save_subresources path r1 st)) path =
        cached st path @ [a, a]) \<and>
   prefix (cached st q) (cached (fst (check_api_resource self resource code api st)) q) \<and>
   dom (saved_entities st) \<subseteq> dom (saved_entities (fst (check_api_resource self resource code api st))) \<and>
   prefix (cached st q) (cached (fst (basics self st)) q) \<and>
   dom (saved_entities st) \<subseteq> dom (saved_entities (fst (basics self st)))"
proof -
  let ?Q = "\<lambda>s. prefix (cached st q) (cached s q) \<and> dom (saved_entities st) \<subseteq> dom (saved_entities s)"
  have h: "\<And>p r s. ?Q s \<Longrightarrow> ?Q (save_subresources p r s)"
    by (rule never_shortened_harvest)
  have l: "\<And>s rq. ?Q s \<Longrightarrow> ?Q (s\<lparr>requests := rq\<rparr>)" by simp
  have i: "?Q st" by simp
  have "?Q (fst (check_api_resource self resource code api st))"
    by (rule check_api_resource_preserves [of ?Q, OF h l i])
  moreover have "?Q (fst (basics self st))"
    by (rule basics_preserves [of ?Q, OF h l i])
  ultimately show ?thesis
    by (simp add: cached_save_subresources)
qed

theorem harvest_append_only_witness:
  "cached (save_subresources ''/sources'' (json_response (JArr [JObj [(''id'', JStr ''c'')]]))
      (save_subresources ''/sources''
         (json_response (JArr [JObj [(''id'', JStr ''a'')], JStr ''b/'']))
         initial_state)) ''/sources'' =
     [JStr ''a'', JStr ''b'', JStr ''c''] \<and>
   cached (save_subresources ''/sources'' (json_response (JArr [JObj [(''id'', JStr ''c'')]]))
      (save_subresources ''/sources'' (json_response (JArr [JObj [(''id'', JStr ''c'')]]))
         initial_state)) ''/sources'' =
     [JStr ''c'', JStr ''c''] \<and>
   cached seeded_state ''/sources'' = [JStr ''old''] \<and>
   cached (fst (basics example_engine seeded_state)) ''/sources'' =
     [JStr ''old'', JStr ''abc'', JStr ''def''] \<and>
   prefix (cached seeded_state ''/sources'')
     (cached (fst (basics example_engine seeded_state)) ''/sources'')"
proof -
  let ?r1 = "json_response (JArr [JObj [(''id'', JStr ''a'')], JStr ''b/''])"
  let ?r2 = "json_response (JArr [JObj [(''id'', JStr ''c'')]])"
  have s1: "subresources_of ?r1 = [JStr ''a'', JStr ''b'']"
    by (simp add: subresources_of_def json_response_def endswith_slash_def rstrip_slash_def)
  have s2: "subresources_of ?r2 = [JStr ''c'']"
    by (simp add: subresources_of_def json_response_def)
  have c0: "cached initial_state ''/sources'' = []"
    by (simp add: cached_def initial_state_def)
  have c1: "cached seeded_state ''/sources'' = [JStr ''old'']"
    by (simp add: cached_def seeded_state_def)
  have c2: "cached (fst (basics example_engine seeded_state)) ''/sources'' =
      [JStr ''old'', JStr ''abc'', JStr ''def'']"
    by (simp add: seeded_run cached_def)
  show ?thesis
    using harvest_append_only [where path = "''/sources''" and ?r1.0 = ?r1 and ?r2.0 = ?r2
        and st = initial_state and a = "JStr ''a''" and b = "JStr ''b''" and c = "JStr ''c''"]
      harvest_append_only [where path = "''/sources''" and ?r1.0 = ?r2
        and st = initial_state and a = "JStr ''c''"]
      harvest_append_only [where st = seeded_state and q = "''/sources''"
        and self = example_engine]
      s1 s2 c0 c1 c2
    by simp
qed

subsection \<open>C6\<close>

text \<open>
  Claim C6. The validator reports the cross-origin failure whatever the body and the schema
  are; with the headers in order and a body that is no JSON it reports invalid JSON whatever
  the schema and the schema validator are; only then does the schema decide.
\<close>

theorem check_response_precedence:
  "(\<not> validate_CORS meth response \<longrightarrow>
      check_response self' schema' meth (response\<lparr>body := body'\<rparr>) =
        Inr (False, ''Incorrect CORS headers: '' @ show_headers self' (headers response))) \<and>
   (validate_CORS meth response \<and> body response = None \<longrightarrow>
      check_response self' schema' meth response = Inr (False, ''Invalid JSON received'')) \<and>
   (validate_CORS meth response \<and> body response = Some document \<and>
    validate self schema document = ValidationError \<longrightarrow>
      check_response self schema meth response =
        Inr (False, ''Response schema validation error'')) \<and>
   (validate_CORS meth response \<and> body response = Some document \<and>
    validate self schema document = Conforms \<longrightarrow>
      check_response self schema meth response = Inr (True, ''''))"
  by (simp add: check_response_def)

theorem check_response_precedence_witness:
  "check_response example_engine (JObj [(''type'', JStr ''array'')]) ''get''
      \<lparr>status_code = 200, headers = Map.empty, body = Some (JArr [])\<rparr> =
     Inr (False, ''Incorrect CORS headers: {}'') \<and>
   check_response example_engine (JObj [(''type'', JStr ''array'')]) ''get''
      \<lparr>status_code = 200, headers = cors_headers, body = None\<rparr> =
     Inr (False, ''Invalid JSON received'') \<and>
   check_response (example_engine\<lparr>validate := (\<lambda>schema instance. ValidationError)\<rparr>)
      (JObj [(''type'', JStr ''array'')]) ''get'' (json_response (JObj [])) =
     Inr (False, ''Response schema validation error'') \<and>
   check_response example_engine (JObj [(''type'', JStr ''array'')]) ''get''
      (json_response (JArr [])) = Inr (True, '''')"
  using check_response_precedence [where meth = "''get''" and self' = example_engine
      and response = "\<lparr>status_code = 200, headers = Map.empty, body = None\<rparr>"
      and body' = "Some (JArr [])" and schema' = "JObj [(''type'', JStr ''array'')]"]
    check_response_precedence [where meth = "''get''" and self' = example_engine
      and response = "\<lparr>status_code = 200, headers = cors_headers, body = None\<rparr>"
      and schema' = "JObj [(''type'', JStr ''array'')]"]
    check_response_precedence [where meth = "''get''"
      and self = "example_engine\<lparr>validate := (\<lambda>schema instance. ValidationError)\<rparr>"
      and response = "json_response (JObj [])" and document = "JObj []"
      and schema = "JObj [(''type'', JStr ''array'')]"]
    check_response_precedence [where meth = "''get''" and self = example_engine
      and response = "json_response (JArr [])" and document = "JArr []"
      and schema = "JObj [(''type'', JStr ''array'')]"]
  by (simp add: validate_CORS_def cors_headers_def json_response_def example_engine_def)

subsection \<open>C7\<close>

text \<open>
  Claim C7. Without \<^verbatim>\<open>Access-Control-Allow-Origin\<close> the validation fails for every method;
  for \<^verbatim>\<open>OPTIONS\<close> it succeeds exactly if the response also has
  \<^verbatim>\<open>Access-Control-Allow-Headers\<close> and an \<^verbatim>\<open>Access-Control-Allow-Methods\<close> that contains
  \<^verbatim>\<open>OPTIONS\<close>; for any other method the first header suffices.
\<close>

theorem validate_CORS_requires_headers:
  "(headers response ''Access-Control-Allow-Origin'' = None \<longrightarrow> \<not> validate_CORS meth response) \<and>
   (validate_CORS ''OPTIONS'' response \<longleftrightarrow>
      headers response ''Access-Control-Allow-Origin'' \<noteq> None \<and>
      headers response ''Access-Control-Allow-Headers'' \<noteq> None \<and>
      (\<exists>allowed. headers response ''Access-Control-Allow-Methods'' = Some allowed \<and>
         sublist ''OPTIONS'' allowed)) \<and>
   (meth \<noteq> ''OPTIONS'' \<longrightarrow>
      (validate_CORS meth response \<longleftrightarrow> headers response ''Access-Control-Allow-Origin'' \<noteq> None))"
  by (auto simp: validate_CORS_def split: option.splits)

theorem validate_CORS_requires_headers_witness:
  "validate_CORS ''OPTIONS''
     \<lparr>status_code = 200,
      headers = [''Access-Control-Allow-Origin'' \<mapsto> ''*'',
                 ''Access-Control-Allow-Headers'' \<mapsto> ''Content-Type'',
                 ''Access-Control-Allow-Methods'' \<mapsto> ''GET, OPTIONS''],
      body = None\<rparr> \<and>
   \<not> validate_CORS ''OPTIONS''
     \<lparr>status_code = 200,
      headers = [''Access-Control-Allow-Origin'' \<mapsto> ''*'',
                 ''Access-Control-Allow-Headers'' \<mapsto> ''Content-Type'',
                 ''Access-Control-Allow-Methods'' \<mapsto> ''GET, HEAD''],
      body = None\<rparr> \<and>
   \<not> validate_CORS ''GET''
     \<lparr>status_code = 200, headers = [''Content-Type'' \<mapsto> ''application/json''],
      body = Some (JArr [])\<rparr> \<and>
   validate_CORS ''GET''
     \<lparr>status_code = 200, headers = [''Access-Control-Allow-Origin'' \<mapsto> ''*''],
      body = Some (JArr [])\<rparr>"
  using validate_CORS_requires_headers [of
      "\<lparr>status_code = 200,
      headers = [''Access-Control-Allow-Origin'' \<mapsto> ''*'',
                 ''Access-Control-Allow-Headers'' \<mapsto> ''Content-Type'',
                 ''Access-Control-Allow-Methods'' \<mapsto> ''GET, OPTIONS''],
      body = None\<rparr>" "''OPTIONS''"]
    validate_CORS_requires_headers [of
      "\<lparr>status_code = 200,
      headers = [''Access-Control-Allow-Origin'' \<mapsto> ''*'',
                 ''Access-Control-Allow-Headers'' \<mapsto> ''Content-Type'',
                 ''Access-Control-Allow-Methods'' \<mapsto> ''GET, HEAD''],
      body = None\<rparr>" "''OPTIONS''"]
    validate_CORS_requires_headers [of
      "\<lparr>status_code = 200, headers = [''Content-Type'' \<mapsto> ''application/json''],
      body = Some (JArr [])\<rparr>" "''GET''"]
    validate_CORS_requires_headers [of
      "\<lparr>status_code = 200, headers = [''Access-Control-Allow-Origin'' \<mapsto> ''*''],
      body = Some (JArr [])\<rparr>" "''GET''"]
  by (simp add: sublist_code)

subsection \<open>C8\<close>

text \<open>
  Claim C8. For an endpoint with more than one path parameter the check returns nothing and
  leaves the state as it was, so no request is made; the loop over the endpoints of an API,
  and the whole run, go as they would without that endpoint in the catalog.
\<close>

theorem many_params_skipped:
  assumes "1 < length (params (snd resource))"
  shows "check_api_resource self resource response_code api st = (st, Inr None) \<and>
         reads_loop self api (before @ [resource] @ after) results st =
           reads_loop self api (before @ after) results st \<and>
         (apis self = earlier @ [(n, a)] @ later \<and> get_reads (spec a) = before @ [resource] @ after \<longrightarrow>
            basics self st =
              basics (self\<lparr>apis :=
                 earlier @ [(n, a\<lparr>spec := (spec a)\<lparr>get_reads := before @ after\<rparr>\<rparr>)] @ later\<rparr>) st)"
  unfolding basics_def
  using check_api_resource_many_params [OF assms, of self response_code api st]
    reads_loop_many_params [OF assms, of self api before after results st]
    apis_loop_many_params [OF assms, of a before after self earlier n later "[]" st]
  by simp

theorem many_params_skipped_witness:
  "check_api_resource example_engine flow_resource 200 node_api initial_state =
     (initial_state, Inr None) \<and>
   basics example_engine initial_state =
     basics (example_engine\<lparr>apis :=
        [] @ [(''node'', (snd node_api)\<lparr>spec :=
                 (spec (snd node_api))\<lparr>get_reads := [sources_resource] @ [source_resource]\<rparr>\<rparr>)] @
        [query_api]\<rparr>) initial_state"
proof -
  have h1: "1 < length (params (snd flow_resource))"
    by (simp add: flow_resource_def)
  have h2: "apis example_engine = [] @ [(''node'', snd node_api)] @ [query_api]"
    by (simp add: example_engine_def node_api_def)
  have h3: "get_reads (spec (snd node_api)) = [sources_resource] @ [flow_resource] @ [source_resource]"
    by (simp add: node_api_def)
  show ?thesis
    using many_params_skipped [OF h1, where self = example_engine and response_code = 200
        and api = node_api and st = initial_state and earlier = "[]" and n = "''node''"
        and a = "snd node_api" and later = "[query_api]" and before = "[sources_resource]"
        and after = "[source_resource]"] h2 h3
    by blast
qed

subsection \<open>C9\<close>

text \<open>
  Claim C9. No key of the cache is mapped to the empty list: this holds of the initial cache
  and is kept by a harvest, by a check and by a whole run; a harvest creates an entry only
  from a response that gave at least one identifier.
\<close>

theorem nonempty_entries_invariant:
  "nonempty_entries initial_state \<and>
   (nonempty_entries st \<longrightarrow> nonempty_entries (save_subresources path response st)) \<and>
   (saved_entities st path = None \<and> saved_entities (save_subresources path response st) path \<noteq> None
      \<longrightarrow> subresources_of response \<noteq> []) \<and>
   (nonempty_entries st \<longrightarrow>
      nonempty_entries (fst (check_api_resource self resource code api st))) \<and>
   (nonempty_entries st \<longrightarrow> nonempty_entries (fst (basics self st)))"
proof -
  have h: "\<And>p r s. nonempty_entries s \<Longrightarrow> nonempty_entries (save_subresources p r s)"
    by (rule nonempty_save_subresources)
  have l: "\<And>s rq. nonempty_entries s \<Longrightarrow> nonempty_entries (s\<lparr>requests := rq\<rparr>)" by simp
  have "nonempty_entries initial_state"
    by (simp add: nonempty_entries_def initial_state_def)
  moreover have "saved_entities st path = None \<and>
      saved_entities (save_subresources path response st) path \<noteq> None
      \<longrightarrow> subresources_of response \<noteq> []"
    by (auto simp: save_subresources_def Let_def)
  moreover have "nonempty_entries st \<longrightarrow>
      nonempty_entries (fst (check_api_resource self resource code api st))"
    using check_api_resource_preserves [of nonempty_entries, OF h l] by blast
  moreover have "nonempty_entries st \<longrightarrow> nonempty_entries (fst (basics self st))"
    using basics_preserves [of nonempty_entries, OF h l] by blast
  ultimately show ?thesis using h by blast
qed

theorem nonempty_entries_invariant_witness:
  "nonempty_entries initial_state \<and>
   saved_entities (fst (basics example_engine initial_state)) ''/sources'' =
     Some [JStr ''abc'', JStr ''def''] \<and>
   nonempty_entries (fst (basics example_engine initial_state))"
  using nonempty_entries_invariant [where st = initial_state and self = example_engine]
  by (simp add: example_run)

subsection \<open>C10\<close>

text \<open>
  Claim C10. A string element of a list body gives an identifier exactly if it ends in a
  slash, and the identifier is the element without its trailing slashes: \<^verbatim>\<open>abc//\<close> gives
  \<^verbatim>\<open>abc\<close>. The other elements of the list contribute as they would without it.
\<close>

theorem gather_ids_string_entry:
  "gather_ids subresources (before @ [JStr s] @ after) =
     gather_ids subresources before @
     (if endswith_slash s then [JStr (rstrip_slash s)] else []) @
     gather_ids [] after \<and>
   s = rstrip_slash s @ replicate (length s - length (rstrip_slash s)) CHR ''/'' \<and>
   \<not> endswith_slash (rstrip_slash s) \<and>
   rstrip_slash ''abc//'' = ''abc''"
proof -
  have "gather_ids [] ([JStr s] @ after) =
      (if endswith_slash s then [JStr (rstrip_slash s)] else []) @ gather_ids [] after"
    using gather_ids_acc [of "[JStr (rstrip_slash s)]" after] by simp
  then have "gather_ids subresources (before @ [JStr s] @ after) =
     gather_ids subresources before @
     (if endswith_slash s then [JStr (rstrip_slash s)] else []) @ gather_ids [] after"
    using gather_ids_append [of subresources before "[JStr s] @ after"] by simp
  moreover have "rstrip_slash ''abc//'' = ''abc''" by (simp add: rstrip_slash_def)
  ultimately show ?thesis
    using rstrip_slash_decompose [of s] rstrip_slash_no_trailing [of s] by blast
qed

theorem gather_ids_string_entry_witness:
  "gather_ids [] ([JStr ''nodes''] @ [JStr ''abc//''] @ [JStr ''devices/'']) =
     [JStr ''abc'', JStr ''devices''] \<and>
   gather_ids [] ([] @ [JStr ''self''] @ []) = []"
  using gather_ids_string_entry [of "[]" "[JStr ''nodes'']" "''abc//''" "[JStr ''devices/'']"]
    gather_ids_string_entry [of "[]" "[]" "''self''" "[]"]
  by (simp add: endswith_slash_def rstrip_slash_def)

end
